theory Spec2Isabelle
  imports Complex_Main "HOL-Library.Word" "HOL-Library.Multiset"
begin

section \<open>Types and constants of the SMTP verifier\<close>

text \<open>
  The verifier's \<^verbatim>\<open>ValidationStatus\<close> is a string type with five constants; it is
  modelled as an enumeration. Go strings are byte sequences and are modelled as
  \<^typ>\<open>string\<close>. Confidence values are the decimal literals of the source, kept as
  rationals; the source never computes with them.
\<close>

datatype ValidationStatus =
  StatusValid | StatusInvalid | StatusCatchAll | StatusUnknown | StatusRisky

record MXRecord =
  Exchange :: string
  Priority :: "16 word"

record ValidationResult =
  Email :: string
  EmailHash :: string
  Domain' :: string
  Status :: ValidationStatus
  Reason :: string
  Confidence :: rat
  SMTPCode :: int
  SMTPResponse :: string
  MXHost :: string
  MXRecords :: "MXRecord list"
  IsCatchAll :: bool
  IsDisposable :: bool

text \<open>
  The two wall-clock fields of the result (\<^verbatim>\<open>ValidationTimeMs\<close>, \<^verbatim>\<open>CheckedAt\<close>) are
  read from the system clock and are left out of the model.
\<close>

record DomainMetadata =
  meta_IsCatchAll :: "bool option"
  meta_CatchAllChecked :: "nat option"
  meta_IsDisposable :: bool
  meta_MXRecords :: "MXRecord list"

text \<open>Durations are \<^verbatim>\<open>time.Duration\<close> values: integers counting nanoseconds.\<close>

definition Second :: int where
  "Second = 1000000000"

definition Millisecond :: int where
  "Millisecond = 1000000"

record Config =
  SMTPConnectTimeout :: int
  SMTPReadTimeout :: int
  SMTPWriteTimeout :: int
  EHLOHostname :: string
  MailFrom :: string
  MaxConcurrentPerDomain :: int
  MaxConcurrentPerMX :: int
  DomainRateLimit :: int
  MaxRetries :: int
  RetryBackoff :: int
  RetryBackoffFactor :: rat
  EnableCatchAllDetection :: bool
  CatchAllProbeCount :: int
  MXCacheTTL :: int
  ResultCacheTTL :: int
  DomainMetaCacheTTL :: int

definition DefaultConfig :: Config where
  "DefaultConfig = \<lparr>
     SMTPConnectTimeout = 10 * Second,
     SMTPReadTimeout = 15 * Second,
     SMTPWriteTimeout = 15 * Second,
     EHLOHostname = ''mail-validator.yourdomain.com'',
     MailFrom = ''verify@mail-validator.yourdomain.com'',
     MaxConcurrentPerDomain = 5,
     MaxConcurrentPerMX = 50,
     DomainRateLimit = 1 * Second,
     MaxRetries = 3,
     RetryBackoff = 2 * Second,
     RetryBackoffFactor = 2,
     EnableCatchAllDetection = True,
     CatchAllProbeCount = 2,
     MXCacheTTL = 3600 * Second,
     ResultCacheTTL = 7 * 24 * 3600 * Second,
     DomainMetaCacheTTL = 24 * 3600 * Second \<rparr>"

section \<open>Errors\<close>

text \<open>
  An error value is what the verifier observes of it: its message, and whether
  \<^verbatim>\<open>errors.Is\<close> finds \<^verbatim>\<open>context.Canceled\<close> or \<^verbatim>\<open>context.DeadlineExceeded\<close> in its
  chain. \<^verbatim>\<open>fmt.Errorf("prefix: %w", err)\<close> prepends to the message and keeps the chain.
\<close>

datatype error =
  Canceled
| DeadlineExceeded
| ErrorString string
| Errorf string error

fun error_text :: "error \<Rightarrow> string" where
  "error_text Canceled = ''context canceled''"
| "error_text DeadlineExceeded = ''context deadline exceeded''"
| "error_text (ErrorString s) = s"
| "error_text (Errorf p e) = p @ error_text e"

fun is_Canceled :: "error \<Rightarrow> bool" where
  "is_Canceled Canceled = True"
| "is_Canceled (Errorf p e) = is_Canceled e"
| "is_Canceled _ = False"

fun is_DeadlineExceeded :: "error \<Rightarrow> bool" where
  "is_DeadlineExceeded DeadlineExceeded = True"
| "is_DeadlineExceeded (Errorf p e) = is_DeadlineExceeded e"
| "is_DeadlineExceeded _ = False"

section \<open>String helpers of the Go library\<close>

text \<open>
  Strings are sequences of bytes. \<^verbatim>\<open>strings.ToLower\<close> and \<^verbatim>\<open>strings.TrimSpace\<close> are
  modelled on ASCII: the letters A-Z are lowered, and the white space is tab, line
  feed, vertical tab, form feed, carriage return and space. Bytes from 0x80 upwards
  are left as they are.
\<close>

definition is_upper :: "char \<Rightarrow> bool" where
  "is_upper c = (65 \<le> (of_char c :: nat) \<and> (of_char c :: nat) \<le> 90)"

definition is_lower :: "char \<Rightarrow> bool" where
  "is_lower c = (97 \<le> (of_char c :: nat) \<and> (of_char c :: nat) \<le> 122)"

definition is_digit :: "char \<Rightarrow> bool" where
  "is_digit c = (48 \<le> (of_char c :: nat) \<and> (of_char c :: nat) \<le> 57)"

definition is_space :: "char \<Rightarrow> bool" where
  "is_space c = ((9 \<le> (of_char c :: nat) \<and> (of_char c :: nat) \<le> 13) \<or> (of_char c :: nat) = 32)"

definition lower_byte :: "char \<Rightarrow> char" where
  "lower_byte c = (if is_upper c then char_of ((of_char c :: nat) + 32) else c)"

definition ToLower :: "string \<Rightarrow> string" where
  "ToLower s = map lower_byte s"

definition TrimSpace :: "string \<Rightarrow> string" where
  "TrimSpace s = rev (dropWhile is_space (rev (dropWhile is_space s)))"

definition TrimSuffix :: "string \<Rightarrow> string \<Rightarrow> string" where
  "TrimSuffix s suffix =
     (if length suffix \<le> length s \<and> drop (length s - length suffix) s = suffix
      then take (length s - length suffix) s else s)"

fun Contains :: "string \<Rightarrow> string \<Rightarrow> bool" where
  "Contains [] sub = (sub = [])"
| "Contains (c # cs) sub = (take (length sub) (c # cs) = sub \<or> Contains cs sub)"

text \<open>\<^verbatim>\<open>strings.Split(s, "@")\<close>: the pieces of \<open>s\<close> between the separator bytes.\<close>

fun Split_at :: "char \<Rightarrow> string \<Rightarrow> string list" where
  "Split_at sep [] = [[]]"
| "Split_at sep (c # cs) =
     (if c = sep then [] # Split_at sep cs
      else (case Split_at sep cs of [] \<Rightarrow> [[c]] | p # ps \<Rightarrow> (c # p) # ps))"

section \<open>Formatting integers (\<^verbatim>\<open>%d\<close>)\<close>

definition digit_char :: "nat \<Rightarrow> char" where
  "digit_char d = char_of (48 + d)"

fun show_nat :: "nat \<Rightarrow> string" where
  "show_nat n = (if n < 10 then [digit_char n] else show_nat (n div 10) @ [digit_char (n mod 10)])"

declare show_nat.simps [simp del]

definition show_int :: "int \<Rightarrow> string" where
  "show_int i = (if i < 0 then CHR ''-'' # show_nat (nat (- i)) else show_nat (nat i))"

section \<open>Response classification\<close>

text \<open>
  \<^verbatim>\<open>classifySMTPResponse(code, response)\<close>: a \<^verbatim>\<open>switch\<close> whose cases are tried in
  order; the response text is not inspected.
\<close>

definition classifySMTPResponse :: "int \<Rightarrow> string \<Rightarrow> ValidationStatus \<times> string \<times> rat" where
  "classifySMTPResponse code response =
     (if code = 250 \<or> code = 251 then (StatusValid, ''mailbox_exists'', 98 / 100)
      else if code = 550 \<or> code = 551 \<or> code = 553 then (StatusInvalid, ''mailbox_not_found'', 95 / 100)
      else if code = 450 \<or> code = 451 \<or> code = 452 then (StatusUnknown, ''temporary_failure'', 3 / 10)
      else if code = 421 then (StatusUnknown, ''rate_limited'', 2 / 10)
      else if code \<ge> 500 then (StatusInvalid, ''smtp_error_'' @ show_int code, 7 / 10)
      else (StatusUnknown, ''unknown_response'', 1 / 10))"

section \<open>Parsing reply codes and deciding on retries\<close>

text \<open>
  \<^verbatim>\<open>fmt.Sscanf(errStr, "%d", &code)\<close>: blanks are skipped (a line feed is an error), one
  sign is accepted, then the longest run of digits and underscores is read and handed
  to \<^verbatim>\<open>strconv.ParseInt\<close> in base 10 and 64 bits, which refuses underscores and values
  out of range. On any error \<open>code\<close> keeps its initial value 0.
\<close>

fun SkipSpace :: "string \<Rightarrow> string option" where
  "SkipSpace [] = Some []"
| "SkipSpace (c # cs) =
     (if c = CHR 0x0A then None else if is_space c then SkipSpace cs else Some (c # cs))"

definition digits_val :: "string \<Rightarrow> int" where
  "digits_val ds = foldl (\<lambda>a c. 10 * a + (int (of_char c) - 48)) 0 ds"

definition Sscanf_d :: "string \<Rightarrow> int" where
  "Sscanf_d s =
     (case SkipSpace s of
        None \<Rightarrow> 0
      | Some s1 \<Rightarrow>
          (let neg = (s1 \<noteq> [] \<and> hd s1 = CHR ''-'');
               s2 = (if s1 \<noteq> [] \<and> (hd s1 = CHR ''+'' \<or> hd s1 = CHR ''-'') then tl s1 else s1);
               tok = takeWhile (\<lambda>c. is_digit c \<or> c = CHR ''_'') s2;
               v = (if neg then - digits_val tok else digits_val tok)
           in if tok = [] \<or> CHR ''_'' \<in> set tok then 0
              else if - (2 ^ 63) \<le> v \<and> v < 2 ^ 63 then v else 0))"

definition parseSMTPError :: "error \<Rightarrow> int \<times> string" where
  "parseSMTPError err =
     (let errStr = error_text err in
      if length errStr \<ge> 3 then
        (let code = Sscanf_d errStr in
         if code \<ge> 100 \<and> code < 600 then (code, errStr) else (0, errStr))
      else (0, errStr))"

text \<open>\<^verbatim>\<open>isRetryableError\<close> is only called with a non-nil error here; nil gives false.\<close>

definition isRetryableError :: "error option \<Rightarrow> bool" where
  "isRetryableError err =
     (case err of
        None \<Rightarrow> False
      | Some e \<Rightarrow>
          (let errStr = error_text e in
           if is_DeadlineExceeded e \<or> is_Canceled e \<or> Contains errStr ''timeout'' \<or>
              Contains errStr ''connection refused'' \<or> Contains errStr ''temporary failure''
           then True
           else (let code = fst (parseSMTPError e) in
                 if code \<ge> 400 \<and> code < 500 then True else False)))"

section \<open>Syntax check and fingerprint\<close>

text \<open>
  The pattern \<^verbatim>\<open>^[a-zA-Z0-9._%+\-]+@[a-zA-Z0-9.\-]+\.[a-zA-Z]{2,}$\<close>: the string matches
  when it can be cut at an \<open>@\<close> at index \<open>i\<close> and at a dot at index \<open>j\<close> such that the
  three pieces are non-empty runs of the three character classes, the last of
  length 2 at least.
\<close>

definition is_alpha :: "char \<Rightarrow> bool" where
  "is_alpha c = (is_lower c \<or> is_upper c)"

definition local_char :: "char \<Rightarrow> bool" where
  "local_char c = (is_alpha c \<or> is_digit c \<or> c \<in> set ''._%+-'')"

definition domain_char :: "char \<Rightarrow> bool" where
  "domain_char c = (is_alpha c \<or> is_digit c \<or> c \<in> set ''.-'')"

definition emailRegex_cut :: "string \<Rightarrow> nat \<Rightarrow> nat \<Rightarrow> bool" where
  "emailRegex_cut s i j =
     (i < j \<and> j < length s \<and> s ! i = CHR ''@'' \<and> s ! j = CHR ''.'' \<and>
      take i s \<noteq> [] \<and> list_all local_char (take i s) \<and>
      take (j - (i + 1)) (drop (i + 1) s) \<noteq> [] \<and>
      list_all domain_char (take (j - (i + 1)) (drop (i + 1) s)) \<and>
      2 \<le> length (drop (j + 1) s) \<and> list_all is_alpha (drop (j + 1) s))"

definition emailRegex_MatchString :: "string \<Rightarrow> bool" where
  "emailRegex_MatchString s =
     (\<exists>i \<in> set [0..<length s]. \<exists>j \<in> set [0..<length s]. emailRegex_cut s i j)"

definition isValidEmailSyntax :: "string \<Rightarrow> bool" where
  "isValidEmailSyntax email = (emailRegex_MatchString email \<and> length email \<le> 320)"

section \<open>Sorting MX records\<close>

text \<open>
  \<^verbatim>\<open>sortMXRecords\<close>: for each \<open>i\<close> from 0 to \<open>len - 2\<close> and each \<open>j\<close> from \<open>i + 1\<close> to
  \<open>len - 1\<close>, the records at \<open>i\<close> and \<open>j\<close> are exchanged when the priority at \<open>i\<close> is
  greater (unsigned 16-bit comparison).
\<close>

definition swap_if_greater :: "nat \<Rightarrow> nat \<Rightarrow> MXRecord list \<Rightarrow> MXRecord list" where
  "swap_if_greater i j records =
     (if Priority (records ! i) > Priority (records ! j)
      then records[i := records ! j, j := records ! i] else records)"

definition sort_inner :: "nat \<Rightarrow> MXRecord list \<Rightarrow> MXRecord list" where
  "sort_inner i records = fold (swap_if_greater i) [i + 1..<length records] records"

definition sortMXRecords :: "MXRecord list \<Rightarrow> MXRecord list" where
  "sortMXRecords records = fold sort_inner [0..<length records - 1] records"

section \<open>The outside world\<close>

text \<open>
  What the verifier does not decide itself is given by an environment: the digest
  function, the DNS answers, the course of each SMTP session, whether the rate-limit
  key is recent, the instant at which the caller's context is done and the error it
  then reports, and the system clock read by the probe generator. Logical time
  (\<open>clock\<close>) advances by one at every point where the verifier waits: a rate-limit
  wait, an SMTP session, a retry backoff, the pause after a probe.
\<close>

datatype session =
  DialFailed error
| ClientFailed error
| HelloFailed error
| MailFailed error
| RcptReply "error option"

record env =
  sha256_hex :: "string \<Rightarrow> string"
  LookupMX :: "string \<Rightarrow> error + (string \<times> 16 word) list"
  smtp_session :: "nat \<Rightarrow> string \<Rightarrow> string \<Rightarrow> session"
  rate_limited :: "nat \<Rightarrow> string \<Rightarrow> bool"
  ctx_done_at :: "nat option"
  ctx_kind :: error
  UnixNano :: "nat \<Rightarrow> int"

text \<open>
  The Redis store holds JSON under string keys; each family of keys is a map to the
  decoded value. A lookup that fails for any reason (missing or expired key, no
  connection, undecodable value) is \<open>None\<close>. The state also records the SMTP sessions
  opened, as pairs of recipient and host, and the backoff delays waited for.
\<close>

record state =
  results :: "string \<rightharpoonup> ValidationResult"
  mx_cache :: "string \<rightharpoonup> MXRecord list"
  domain_meta :: "string \<rightharpoonup> DomainMetadata"
  catchall_cache :: "string \<rightharpoonup> string"
  clock :: nat
  contacted :: "(string \<times> string) list"
  waited :: "int list"

definition ctx_Err :: "env \<Rightarrow> nat \<Rightarrow> error option" where
  "ctx_Err e t =
     (case ctx_done_at e of
        None \<Rightarrow> None
      | Some d \<Rightarrow> if d \<le> t then Some (ctx_kind e) else None)"

definition tick :: "state \<Rightarrow> state" where
  "tick st = st\<lparr>clock := clock st + 1\<rparr>"

section \<open>Caching layer\<close>

definition getCachedResult :: "state \<Rightarrow> string \<Rightarrow> ValidationResult option" where
  "getCachedResult st emailHash = results st (''validation:result:'' @ emailHash)"

definition cacheResult :: "state \<Rightarrow> string \<Rightarrow> ValidationResult \<Rightarrow> state" where
  "cacheResult st emailHash result =
     st\<lparr>results := (results st)(''validation:result:'' @ emailHash \<mapsto> result)\<rparr>"

definition getCachedMXRecords :: "state \<Rightarrow> string \<Rightarrow> MXRecord list option" where
  "getCachedMXRecords st domain = mx_cache st (''mx:records:'' @ domain)"

definition cacheMXRecords :: "state \<Rightarrow> string \<Rightarrow> MXRecord list \<Rightarrow> state" where
  "cacheMXRecords st domain records =
     st\<lparr>mx_cache := (mx_cache st)(''mx:records:'' @ domain \<mapsto> records)\<rparr>"

definition getDomainMetadata :: "state \<Rightarrow> string \<Rightarrow> DomainMetadata option" where
  "getDomainMetadata st domain = domain_meta st (''domain:meta:'' @ domain)"

definition getCachedCatchAllStatus :: "state \<Rightarrow> string \<Rightarrow> bool option" where
  "getCachedCatchAllStatus st domain =
     (case catchall_cache st (''domain:catchall:'' @ domain) of
        None \<Rightarrow> None
      | Some val \<Rightarrow> Some (val = ''1''))"

definition cacheCatchAllStatus :: "state \<Rightarrow> string \<Rightarrow> bool \<Rightarrow> state" where
  "cacheCatchAllStatus st domain isCatchAll =
     st\<lparr>catchall_cache := (catchall_cache st)(''domain:catchall:'' @ domain \<mapsto>
        (if isCatchAll then ''1'' else ''0''))\<rparr>"

section \<open>Helper functions\<close>

definition createResult ::
  "string \<Rightarrow> string \<Rightarrow> string \<Rightarrow> ValidationStatus \<Rightarrow> string \<Rightarrow> rat \<Rightarrow> int \<Rightarrow> string \<Rightarrow> string \<Rightarrow>
   MXRecord list \<Rightarrow> ValidationResult" where
  "createResult email emailHash domain status reason confidence smtpCode smtpResponse mxHost mxRecords =
     \<lparr> Email = email, EmailHash = emailHash, Domain' = domain, Status = status,
       Reason = reason, Confidence = confidence, SMTPCode = smtpCode,
       SMTPResponse = smtpResponse, MXHost = mxHost, MXRecords = mxRecords,
       IsCatchAll = False, IsDisposable = False \<rparr>"

definition hashEmail :: "env \<Rightarrow> string \<Rightarrow> string" where
  "hashEmail e email = sha256_hex e (ToLower email)"

section \<open>Rate limiting\<close>

text \<open>
  \<^verbatim>\<open>waitForRateLimit\<close>: when the domain's last check is younger than the configured
  interval, the verifier waits for the rest of it or for the context, whichever comes
  first. The write of the new time stamp is not kept, since its reading is the
  environment's \<open>rate_limited\<close>.
\<close>

definition waitForRateLimit :: "env \<Rightarrow> Config \<Rightarrow> string \<Rightarrow> string \<Rightarrow> state \<Rightarrow> error option \<times> state" where
  "waitForRateLimit e cfg domain mxHost st =
     (if rate_limited e (clock st) domain
      then (ctx_Err e (clock (tick st)), tick st)
      else (None, st))"

section \<open>SMTP handshake\<close>

text \<open>
  \<^verbatim>\<open>smtpHandshake\<close> returns the reply code and text of the RCPT step, or the error of an
  earlier step. Dialling under a context that is already done fails at once with an
  error that wraps the context's; no session is opened then. The optional STARTTLS
  step has no influence on the values returned.
\<close>

definition smtpHandshake ::
  "env \<Rightarrow> Config \<Rightarrow> string \<Rightarrow> string \<Rightarrow> state \<Rightarrow> (error + int \<times> string) \<times> state" where
  "smtpHandshake e cfg email mxHost st =
     (case ctx_Err e (clock st) of
        Some ce \<Rightarrow> (Inl (Errorf ''connection failed: '' ce), tick st)
      | None \<Rightarrow>
          (let st1 = tick (st\<lparr>contacted := contacted st @ [(email, mxHost)]\<rparr>) in
           case smtp_session e (clock st) email mxHost of
             DialFailed err \<Rightarrow> (Inl (Errorf ''connection failed: '' err), st1)
           | ClientFailed err \<Rightarrow> (Inl (Errorf ''smtp client creation failed: '' err), st1)
           | HelloFailed err \<Rightarrow> (Inl (Errorf ''EHLO failed: '' err), st1)
           | MailFailed err \<Rightarrow> (Inl (Errorf ''MAIL FROM failed: '' err), st1)
           | RcptReply (Some err) \<Rightarrow> (Inr (parseSMTPError err), st1)
           | RcptReply None \<Rightarrow> (Inr (250, ''Recipient OK''), st1)))"

section \<open>Catch-all detection\<close>

fun probe_loop ::
  "env \<Rightarrow> Config \<Rightarrow> string \<Rightarrow> string list \<Rightarrow> int \<Rightarrow> state \<Rightarrow> int \<times> state" where
  "probe_loop e cfg mxHost [] acceptCount st = (acceptCount, st)"
| "probe_loop e cfg mxHost (probeEmail # rest) acceptCount st =
     (case smtpHandshake e cfg probeEmail mxHost st of
        (r, st1) \<Rightarrow>
          probe_loop e cfg mxHost rest
            (case r of
               Inr (smtpCode, _) \<Rightarrow>
                 if smtpCode = 250 \<or> smtpCode = 251 then acceptCount + 1 else acceptCount
             | Inl _ \<Rightarrow> acceptCount)
            (tick st1))"

text \<open>
  \<^verbatim>\<open>detectCatchAll\<close>; \<open>None\<close> stands for the run-time panic of \<^verbatim>\<open>make\<close> on a negative
  probe count. The integer division of Go truncates; the count is not negative there.
\<close>

definition probeEmails :: "env \<Rightarrow> Config \<Rightarrow> string \<Rightarrow> string list" where
  "probeEmails e cfg domain =
     map (\<lambda>i. ''probeverify'' @ show_int (UnixNano e i) @ show_int (int i) @ ''@'' @ domain)
       [0..<nat (CatchAllProbeCount cfg)]"

definition detectCatchAll ::
  "env \<Rightarrow> Config \<Rightarrow> string \<Rightarrow> MXRecord \<Rightarrow> state \<Rightarrow> bool option \<times> state" where
  "detectCatchAll e cfg domain mx st =
     (case getCachedCatchAllStatus st domain of
        Some cached \<Rightarrow> (Some cached, st)
      | None \<Rightarrow>
          if CatchAllProbeCount cfg < 0 then (None, st)
          else
            (case probe_loop e cfg (Exchange mx) (probeEmails e cfg domain) 0 st of
               (acceptCount, st1) \<Rightarrow>
                 (let isCatchAll = (acceptCount \<ge> CatchAllProbeCount cfg div 2)
                  in (Some isCatchAll, cacheCatchAllStatus st1 domain isCatchAll))))"

section \<open>DNS MX lookup\<close>

definition getMXRecords ::
  "env \<Rightarrow> Config \<Rightarrow> string \<Rightarrow> state \<Rightarrow> (error + MXRecord list) \<times> state" where
  "getMXRecords e cfg domain st =
     (case getCachedMXRecords st domain of
        Some (c # cs) \<Rightarrow> (Inr (c # cs), st)
      | _ \<Rightarrow>
          (case LookupMX e domain of
             Inl err \<Rightarrow> (Inl err, st)
           | Inr mxs \<Rightarrow>
               (let records = sortMXRecords
                      (map (\<lambda>(host, pref). \<lparr>Exchange = TrimSuffix host ''.'', Priority = pref\<rparr>) mxs)
                in (Inr records, cacheMXRecords st domain records))))"

section \<open>SMTP verification logic\<close>

text \<open>
  The delay before the next attempt is
  \<^verbatim>\<open>time.Duration(float64(RetryBackoff) * float64(attempt+1) * RetryBackoffFactor)\<close>;
  the conversion to a duration truncates towards zero. The product is taken exactly.
\<close>

definition backoff :: "Config \<Rightarrow> int \<Rightarrow> int" where
  "backoff cfg attempt =
     (let x = of_int (RetryBackoff cfg) * of_int (attempt + 1) * RetryBackoffFactor cfg
      in if x \<ge> 0 then \<lfloor>x\<rfloor> else \<lceil>x\<rceil>)"

text \<open>
  The handshake loop of \<^verbatim>\<open>verifySMTPWithMX\<close>. \<open>prev\<close> holds what the variables
  \<open>smtpCode\<close>, \<open>smtpResponse\<close> and \<open>err\<close> hold when the loop condition is tested; the
  early return on a done context and the return after the loop both give the error.
\<close>

function handshake_loop ::
  "env \<Rightarrow> Config \<Rightarrow> string \<Rightarrow> string \<Rightarrow> int \<Rightarrow> (error + int \<times> string) \<Rightarrow> state \<Rightarrow>
   (error + int \<times> string) \<times> state" where
  "handshake_loop e cfg email mxHost attempt prev st =
     (if attempt < MaxRetries cfg then
        (case smtpHandshake e cfg email mxHost st of
           (Inr r, st1) \<Rightarrow> (Inr r, st1)
         | (Inl err, st1) \<Rightarrow>
             if \<not> isRetryableError (Some err) then (Inl err, st1)
             else if attempt < MaxRetries cfg - 1 then
               (let st2 = tick (st1\<lparr>waited := waited st1 @ [backoff cfg attempt]\<rparr>) in
                case ctx_Err e (clock st2) of
                  Some ce \<Rightarrow> (Inl ce, st2)
                | None \<Rightarrow> handshake_loop e cfg email mxHost (attempt + 1) (Inl err) st2)
             else handshake_loop e cfg email mxHost (attempt + 1) (Inl err) st1)
      else (prev, st))"
  by pat_completeness auto
termination
  by (relation "measure (\<lambda>(e, cfg, email, mxHost, attempt, prev, st). nat (MaxRetries cfg - attempt))")
    auto

declare handshake_loop.simps [simp del]

text \<open>
  \<^verbatim>\<open>verifySMTPWithMX\<close>: \<open>Some (Inl err)\<close> is the return of an error, \<open>Some (Inr result)\<close>
  the return of a result, \<open>None\<close> the panic of the catch-all detector.
\<close>

definition verifySMTPWithMX ::
  "env \<Rightarrow> Config \<Rightarrow> string \<Rightarrow> string \<Rightarrow> MXRecord \<Rightarrow> state \<Rightarrow>
   (error + ValidationResult) option \<times> state" where
  "verifySMTPWithMX e cfg email domain mx st =
     (let emailHash = hashEmail e email in
      case waitForRateLimit e cfg domain (Exchange mx) st of
        (Some err, st1) \<Rightarrow> (Some (Inl err), st1)
      | (None, st1) \<Rightarrow>
          (case handshake_loop e cfg email (Exchange mx) 0 (Inr (0, [])) st1 of
             (Inl err, st2) \<Rightarrow> (Some (Inl err), st2)
           | (Inr (smtpCode, smtpResponse), st2) \<Rightarrow>
               (case classifySMTPResponse smtpCode smtpResponse of
                  (status, reason, confidence) \<Rightarrow>
                    if status = StatusValid \<and> EnableCatchAllDetection cfg then
                      (case detectCatchAll e cfg domain mx st2 of
                         (None, st3) \<Rightarrow> (None, st3)
                       | (Some isCatchAll, st3) \<Rightarrow>
                           (Some (Inr
                              ((if isCatchAll
                                then createResult email emailHash domain StatusCatchAll
                                       ''catch_all_domain'' (5 / 10) smtpCode smtpResponse
                                       (Exchange mx) [mx]
                                else createResult email emailHash domain status reason
                                       confidence smtpCode smtpResponse (Exchange mx) [mx])
                               \<lparr>IsCatchAll := isCatchAll\<rparr>)), st3))
                    else
                      (Some (Inr
                         ((createResult email emailHash domain status reason confidence
                             smtpCode smtpResponse (Exchange mx) [mx])
                          \<lparr>IsCatchAll := False\<rparr>)), st2))))"

text \<open>
  The loop of \<^verbatim>\<open>performSMTPVerification\<close> over the MX records; it returns the pair of
  result and error of the Go function.
\<close>

fun mx_loop ::
  "env \<Rightarrow> Config \<Rightarrow> string \<Rightarrow> string \<Rightarrow> MXRecord list \<Rightarrow> MXRecord list \<Rightarrow> error option \<Rightarrow> state \<Rightarrow>
   (ValidationResult \<times> error option) option \<times> state" where
  "mx_loop e cfg email domain mxRecords [] lastErr st =
     (Some (createResult email (hashEmail e email) domain StatusUnknown ''all_mx_failed''
              (2 / 10) 0 [] [] mxRecords, lastErr), st)"
| "mx_loop e cfg email domain mxRecords (mx # rest) lastErr st =
     (case verifySMTPWithMX e cfg email domain mx st of
        (None, st1) \<Rightarrow> (None, st1)
      | (Some (Inr result), st1) \<Rightarrow>
          if Status result = StatusValid \<or> Status result = StatusInvalid
          then (Some (result, None), st1)
          else mx_loop e cfg email domain mxRecords rest None st1
      | (Some (Inl err), st1) \<Rightarrow> mx_loop e cfg email domain mxRecords rest (Some err) st1)"

definition performSMTPVerification ::
  "env \<Rightarrow> Config \<Rightarrow> string \<Rightarrow> string \<Rightarrow> MXRecord list \<Rightarrow> state \<Rightarrow>
   (ValidationResult \<times> error option) option \<times> state" where
  "performSMTPVerification e cfg email domain mxRecords st =
     mx_loop e cfg email domain mxRecords mxRecords None st"

section \<open>Public API\<close>

text \<open>
  \<^verbatim>\<open>Verify\<close> always returns a nil error; the model returns the result, or \<open>None\<close> when
  the catch-all detector panics, together with the state it leaves.
\<close>

definition Verify :: "env \<Rightarrow> Config \<Rightarrow> string \<Rightarrow> state \<Rightarrow> ValidationResult option \<times> state" where
  "Verify e cfg raw st =
     (let email = ToLower (TrimSpace raw);
          emailHash = hashEmail e email
      in case getCachedResult st emailHash of
           Some cached \<Rightarrow> (Some cached, st)
         | None \<Rightarrow>
             if \<not> isValidEmailSyntax email
             then (Some (createResult email emailHash [] StatusInvalid ''syntax_error'' 1 0 [] [] []), st)
             else
               (let parts = Split_at CHR ''@'' email in
                if length parts \<noteq> 2
                then (Some (createResult email emailHash [] StatusInvalid ''invalid_format'' 1 0 [] [] []), st)
                else
                  (let domain = parts ! 1 in
                   case getMXRecords e cfg domain st of
                     (Inl err, st1) \<Rightarrow>
                       (Some (createResult email emailHash domain StatusInvalid ''no_mx_records''
                                (95 / 100) 0 [] [] []), st1)
                   | (Inr mxRecords, st1) \<Rightarrow>
                       if mxRecords = []
                       then (Some (createResult email emailHash domain StatusInvalid ''no_mx_records''
                                     (95 / 100) 0 [] [] []), st1)
                       else if (case getDomainMetadata st1 domain of
                                  None \<Rightarrow> False | Some domainMeta \<Rightarrow> meta_IsDisposable domainMeta)
                       then (Some (createResult email emailHash domain StatusRisky ''disposable_domain''
                                     (9 / 10) 0 [] [] mxRecords), st1)
                       else
                         (case performSMTPVerification e cfg email domain mxRecords st1 of
                            (None, st2) \<Rightarrow> (None, st2)
                          | (Some (result, Some err), st2) \<Rightarrow>
                              (Some (createResult email emailHash domain StatusUnknown
                                       (''smtp_error: '' @ error_text err) (2 / 10) 0 [] [] mxRecords), st2)
                          | (Some (result, None), st2) \<Rightarrow>
                              (Some result, cacheResult st2 emailHash result)))))"

section \<open>The coupling of status and catch-all flag\<close>

definition coupling :: "ValidationResult \<Rightarrow> bool" where
  "coupling r =
     ((Status r = StatusValid \<longrightarrow> \<not> IsCatchAll r) \<and> (Status r = StatusCatchAll \<longrightarrow> IsCatchAll r))"

definition cache_coupled :: "state \<Rightarrow> bool" where
  "cache_coupled st = (\<forall>r \<in> ran (results st). coupling r)"

section \<open>Example environments\<close>

text \<open>
  A small world used to run the verifier on concrete inputs: the digest is replaced
  by the identity, one MX host answers every RCPT with 250, nothing is cached, the
  rate limit never applies and the context is never done.
\<close>

definition example_env :: env where
  "example_env = \<lparr>
     sha256_hex = (\<lambda>s. s),
     LookupMX = (\<lambda>domain. Inr [(''mx.example.com.'', 10)]),
     smtp_session = (\<lambda>t rcpt host. RcptReply None),
     rate_limited = (\<lambda>t domain. False),
     ctx_done_at = None,
     ctx_kind = DeadlineExceeded,
     UnixNano = (\<lambda>i. 0) \<rparr>"

definition empty_state :: state where
  "empty_state = \<lparr>
     results = Map.empty, mx_cache = Map.empty, domain_meta = Map.empty,
     catchall_cache = Map.empty, clock = 0, contacted = [], waited = [] \<rparr>"

text \<open>Variants: a resolver that times out, a domain without MX records, and a host that
  accepts the submitted address only.\<close>

definition dns_timeout_env :: env where
  "dns_timeout_env =
     example_env\<lparr>LookupMX := (\<lambda>domain. Inl (ErrorString ''lookup example.com: i/o timeout''))\<rparr>"

definition no_mx_env :: env where
  "no_mx_env = example_env\<lparr>LookupMX := (\<lambda>domain. Inr [])\<rparr>"

definition selective_env :: env where
  "selective_env =
     example_env\<lparr>smtp_session := (\<lambda>t rcpt host.
        if rcpt = ''user@example.com'' then RcptReply None
        else RcptReply (Some (ErrorString ''550 no such user'')))\<rparr>"

section \<open>Sortedness of MX lists\<close>

definition sorted_upto :: "nat \<Rightarrow> MXRecord list \<Rightarrow> bool" where
  "sorted_upto m rs = (sorted (map Priority (take m rs)) \<and>
     (\<forall>x \<in> set (take m rs). \<forall>y \<in> set (drop m rs). Priority x \<le> Priority y))"

definition mx_cache_sorted :: "state \<Rightarrow> bool" where
  "mx_cache_sorted st = (\<forall>rs \<in> ran (mx_cache st). sorted (map Priority rs))"

text \<open>Resolvers whose answers carry upper-case letters, or are not in order.\<close>

definition upper_env :: env where
  "upper_env = example_env\<lparr>LookupMX := (\<lambda>domain.
      Inr [(''MX1.Example.COM.'', 10), (''mx2.example.com.'', 20)])\<rparr>"

definition unsorted_env :: env where
  "unsorted_env = example_env\<lparr>LookupMX := (\<lambda>domain.
      Inr [(''mx2.example.com.'', 20), (''mx1.example.com.'', 10)])\<rparr>"


definition reject_env :: env where
  "reject_env = example_env\<lparr>smtp_session := (\<lambda>t rcpt host.
      RcptReply (Some (ErrorString ''550 no such user'')))\<rparr>"

definition first_probe_env :: env where
  "first_probe_env = example_env\<lparr>smtp_session := (\<lambda>t rcpt host.
      if rcpt = ''probeverify00@example.com'' then RcptReply None
      else RcptReply (Some (ErrorString ''550 no such user'')))\<rparr>"

definition refused_env :: env where
  "refused_env = example_env\<lparr>smtp_session := (\<lambda>t rcpt host.
      DialFailed (ErrorString ''dial tcp 192.0.2.1:25: connect: connection refused''))\<rparr>"

definition greylist_env :: env where
  "greylist_env = example_env\<lparr>smtp_session := (\<lambda>t rcpt host.
      RcptReply (Some (ErrorString ''451 try again later'')))\<rparr>"

definition known_catchall_state :: state where
  "known_catchall_state = empty_state\<lparr>
     domain_meta := [''domain:meta:example.com'' \<mapsto>
        \<lparr>meta_IsCatchAll = Some True, meta_CatchAllChecked = Some 0,
          meta_IsDisposable = False, meta_MXRecords = []\<rparr>],
     catchall_cache := [''domain:catchall:example.com'' \<mapsto> ''1'']\<rparr>"

section \<open>Properties\<close>

subsection \<open>Auxiliary facts about strings\<close>










lemma at_not_class:
  "\<not> local_char CHR ''@''" "\<not> domain_char CHR ''@''" "\<not> is_alpha CHR ''@''"
  by (simp_all add: local_char_def domain_char_def is_alpha_def is_lower_def is_upper_def is_digit_def)

lemma count_list_none: "list_all P xs \<Longrightarrow> \<not> P c \<Longrightarrow> count_list xs c = 0"
  by (induction xs) auto

lemma count_list_append: "count_list (xs @ ys) c = count_list xs c + count_list ys c"
  by (induction xs) auto

lemma emailRegex_cut_split:
  assumes "emailRegex_cut s i j"
  shows "s = take i s @ CHR ''@'' # take (j - (i + 1)) (drop (i + 1) s) @ CHR ''.'' # drop (j + 1) s"
proof -
  from assms have ij: "i < j" "j < length s" and si: "s ! i = CHR ''@''" and sj: "s ! j = CHR ''.''"
    by (simp_all add: emailRegex_cut_def)
  have a: "s = take i s @ s ! i # drop (i + 1) s"
    using ij by (simp add: id_take_nth_drop)
  let ?r = "drop (i + 1) s"
  have jr: "j - (i + 1) < length ?r" using ij by simp
  have b: "?r = take (j - (i + 1)) ?r @ ?r ! (j - (i + 1)) # drop (j - (i + 1) + 1) ?r"
    using jr by (metis id_take_nth_drop Suc_eq_plus1)
  have c: "?r ! (j - (i + 1)) = s ! j" using ij by simp
  have d: "drop (j - (i + 1) + 1) ?r = drop (j + 1) s" using ij by simp
  from a b c d si sj show ?thesis by metis
qed

lemma emailRegex_cut_one_at:
  assumes "emailRegex_cut s i j"
  shows "count_list s CHR ''@'' = 1"
proof -
  from assms have l: "list_all local_char (take i s)"
    and d: "list_all domain_char (take (j - (i + 1)) (drop (i + 1) s))"
    and t: "list_all is_alpha (drop (j + 1) s)"
    by (simp_all add: emailRegex_cut_def)
  define A where "A = take i s"
  define B where "B = take (j - (i + 1)) (drop (i + 1) s)"
  define C where "C = drop (j + 1) s"
  have z: "count_list A CHR ''@'' = 0" "count_list B CHR ''@'' = 0" "count_list C CHR ''@'' = 0"
    using count_list_none[OF l at_not_class(1)] count_list_none[OF d at_not_class(2)]
      count_list_none[OF t at_not_class(3)]
    by (simp_all add: A_def B_def C_def)
  have eq: "s = A @ CHR ''@'' # B @ CHR ''.'' # C"
    unfolding A_def B_def C_def by (rule emailRegex_cut_split[OF assms])
  show ?thesis
    by (subst eq) (simp add: count_list_append z)
qed

lemma length_Split_at: "length (Split_at c s) = count_list s c + 1"
  by (induction s) (auto split: list.splits)

lemma isValidEmailSyntax_one_at: "isValidEmailSyntax s \<Longrightarrow> count_list s CHR ''@'' = 1"
  by (auto simp: isValidEmailSyntax_def emailRegex_MatchString_def dest: emailRegex_cut_one_at)

lemma length_ToLower: "length (ToLower s) = length s"
  by (simp add: ToLower_def)

lemma MatchString_I:
  "i < length s \<Longrightarrow> j < length s \<Longrightarrow> emailRegex_cut s i j \<Longrightarrow> emailRegex_MatchString s"
  unfolding emailRegex_MatchString_def
  by (rule bexI[of _ i], rule bexI[of _ j]) simp_all

lemmas class_defs = local_char_def domain_char_def is_alpha_def is_lower_def is_upper_def is_digit_def

lemma ex_short_valid: "isValidEmailSyntax ''a@b.co''"
proof -
  have "emailRegex_cut ''a@b.co'' 1 3"
    by (simp add: emailRegex_cut_def class_defs)
  then have "emailRegex_MatchString ''a@b.co''"
    by (rule MatchString_I[rotated 2]) simp_all
  then show ?thesis by (simp add: isValidEmailSyntax_def)
qed

lemma TrimSpace_replicate_a: "ToLower (TrimSpace (replicate n CHR ''a'')) = replicate n CHR ''a''"
proof -
  have ns: "\<not> is_space CHR ''a''" by (simp add: is_space_def)
  have d: "dropWhile is_space (replicate n CHR ''a'') = replicate n CHR ''a''"
    by (cases n) (simp_all add: ns)
  have "lower_byte CHR ''a'' = CHR ''a''" by (simp add: lower_byte_def is_upper_def)
  then show ?thesis by (simp add: TrimSpace_def d ToLower_def ns)
qed

lemma sortMXRecords_Nil: "sortMXRecords [] = []"
  by (simp add: sortMXRecords_def)

lemma Split_at_valid: "isValidEmailSyntax email \<Longrightarrow> length (Split_at CHR ''@'' email) = 2"
  by (simp add: length_Split_at isValidEmailSyntax_one_at)

lemma getMXRecords_failure:
  assumes "getCachedMXRecords st domain = None \<or> getCachedMXRecords st domain = Some []"
    and "LookupMX e domain = Inl err \<or> LookupMX e domain = Inr []"
  shows "(\<exists>er. getMXRecords e cfg domain st = (Inl er, st)) \<or>
         (\<exists>st1. getMXRecords e cfg domain st = (Inr [], st1) \<and> results st1 = results st)"
  using assms
  by (auto simp: getMXRecords_def sortMXRecords_Nil cacheMXRecords_def)

lemma Verify_no_mx:
  assumes miss: "getCachedResult st (hashEmail e (ToLower (TrimSpace raw))) = None"
    and syn: "isValidEmailSyntax (ToLower (TrimSpace raw))"
    and mx: "getCachedMXRecords st (Split_at CHR ''@'' (ToLower (TrimSpace raw)) ! 1) = None \<or>
             getCachedMXRecords st (Split_at CHR ''@'' (ToLower (TrimSpace raw)) ! 1) = Some []"
    and dns: "LookupMX e (Split_at CHR ''@'' (ToLower (TrimSpace raw)) ! 1) = Inl err \<or>
              LookupMX e (Split_at CHR ''@'' (ToLower (TrimSpace raw)) ! 1) = Inr []"
  shows "\<exists>st1. Verify e cfg raw st =
           (Some (createResult (ToLower (TrimSpace raw)) (hashEmail e (ToLower (TrimSpace raw)))
                    (Split_at CHR ''@'' (ToLower (TrimSpace raw)) ! 1)
                    StatusInvalid ''no_mx_records'' (95 / 100) 0 [] [] []), st1) \<and>
           results st1 = results st"
  using getMXRecords_failure[OF mx dns, of cfg] miss syn Split_at_valid[OF syn]
  by (auto simp: Verify_def Let_def)

lemma ex_user_valid: "isValidEmailSyntax ''user@example.com''"
proof -
  have "emailRegex_cut ''user@example.com'' 4 12"
    by (simp add: emailRegex_cut_def class_defs)
  then have "emailRegex_MatchString ''user@example.com''"
    by (rule MatchString_I[rotated 2]) simp_all
  then show ?thesis by (simp add: isValidEmailSyntax_def)
qed

lemma ex_user_norm: "ToLower (TrimSpace ''user@example.com'') = ''user@example.com''"
  by code_simp

lemma ex_user_domain: "Split_at CHR ''@'' ''user@example.com'' ! 1 = ''example.com''"
  by simp

subsection \<open>The result cache is written by Verify alone\<close>

lemma results_tick [simp]: "results (tick st) = results st"
  by (simp add: tick_def)

lemma results_waitForRateLimit:
  "waitForRateLimit e cfg domain mxHost st = (r, st1) \<Longrightarrow> results st1 = results st"
  by (auto simp: waitForRateLimit_def split: if_splits)

lemma results_smtpHandshake:
  "smtpHandshake e cfg email mxHost st = (r, st1) \<Longrightarrow> results st1 = results st"
  by (auto simp: smtpHandshake_def Let_def split: option.splits session.splits)

lemma results_handshake_loop:
  "handshake_loop e cfg email mxHost attempt prev st = (r, st1) \<Longrightarrow> results st1 = results st"
proof (induction e cfg email mxHost attempt prev st arbitrary: r st1 rule: handshake_loop.induct)
  case (1 e cfg email mxHost attempt prev st)
  show ?case
  proof (cases "attempt < MaxRetries cfg")
    case False
    with "1.prems" show ?thesis by (simp add: handshake_loop.simps)
  next
    case True
    obtain h sa where h: "smtpHandshake e cfg email mxHost st = (h, sa)" by force
    have sa: "results sa = results st" using results_smtpHandshake[OF h] .
    show ?thesis
    proof (cases h)
      case (Inr v)
      with "1.prems" True h sa show ?thesis by (simp add: handshake_loop.simps)
    next
      case (Inl err)
      show ?thesis
      proof (cases "isRetryableError (Some err)")
        case False
        with "1.prems" True h sa Inl show ?thesis by (simp add: handshake_loop.simps)
      next
        case rt: True
        show ?thesis
        proof (cases "attempt < MaxRetries cfg - 1")
          case False
          have "handshake_loop e cfg email mxHost (attempt + 1) (Inl err) sa = (r, st1)"
            using "1.prems" True h Inl rt False by (simp add: handshake_loop.simps)
          then show ?thesis
            using "1.IH"(2)[OF True h[symmetric] Inl] rt False sa by simp
        next
          case lt: True
          let ?s2 = "tick (sa\<lparr>waited := waited sa @ [backoff cfg attempt]\<rparr>)"
          show ?thesis
          proof (cases "ctx_Err e (clock ?s2)")
            case (Some ce)
            with "1.prems" True h Inl rt lt sa show ?thesis
              by (auto simp: handshake_loop.simps[of e cfg email mxHost attempt] Let_def)
          next
            case None
            have "handshake_loop e cfg email mxHost (attempt + 1) (Inl err) ?s2 = (r, st1)"
              using "1.prems" True h Inl rt lt None
              by (simp add: handshake_loop.simps[of e cfg email mxHost attempt] Let_def)
            then show ?thesis
              using "1.IH"(1)[OF True h[symmetric] Inl _ lt refl None] rt sa by simp
          qed
        qed
      qed
    qed
  qed
qed


lemma results_probe_loop:
  "probe_loop e cfg mxHost ps acc st = (n, st1) \<Longrightarrow> results st1 = results st"
proof (induction ps arbitrary: acc st)
  case Nil
  then show ?case by simp
next
  case (Cons p ps)
  obtain h sa where h: "smtpHandshake e cfg p mxHost st = (h, sa)" by force
  from Cons.prems h obtain acc' where "probe_loop e cfg mxHost ps acc' (tick sa) = (n, st1)"
    by auto
  from Cons.IH[OF this] results_smtpHandshake[OF h] show ?case by simp
qed

lemma results_detectCatchAll:
  "detectCatchAll e cfg domain mx st = (r, st1) \<Longrightarrow> results st1 = results st"
  by (auto simp: detectCatchAll_def cacheCatchAllStatus_def Let_def
      split: option.splits if_splits prod.splits dest: results_probe_loop)

lemma classify_not_CatchAll: "fst (classifySMTPResponse code resp) \<noteq> StatusCatchAll"
  by (simp add: classifySMTPResponse_def)

lemma verifySMTPWithMX_result:
  assumes "verifySMTPWithMX e cfg email domain mx st = (r, st1)"
  shows "results st1 = results st \<and> (\<forall>res. r = Some (Inr res) \<longrightarrow> coupling res)"
proof -
  obtain w sa where w: "waitForRateLimit e cfg domain (Exchange mx) st = (w, sa)" by force
  have sa: "results sa = results st" using results_waitForRateLimit[OF w] .
  show ?thesis
  proof (cases w)
    case (Some err)
    with assms w sa show ?thesis by (auto simp: verifySMTPWithMX_def Let_def)
  next
    case None
    obtain h sb where h: "handshake_loop e cfg email (Exchange mx) 0 (Inr (0, [])) sa = (h, sb)" by force
    have sb: "results sb = results st" using results_handshake_loop[OF h] sa by simp
    show ?thesis
    proof (cases h)
      case (Inl err)
      with assms w None h sb show ?thesis by (auto simp: verifySMTPWithMX_def Let_def)
    next
      case (Inr cr)
      obtain code resp where cr: "cr = (code, resp)" by (cases cr)
      obtain status reason conf where c: "classifySMTPResponse code resp = (status, reason, conf)"
        by (cases "classifySMTPResponse code resp")
      have nc: "status \<noteq> StatusCatchAll" using classify_not_CatchAll[of code resp] c by simp
      show ?thesis
      proof (cases "status = StatusValid \<and> EnableCatchAllDetection cfg")
        case False
        with assms w None h sb Inr cr c nc show ?thesis
          by (auto simp: verifySMTPWithMX_def Let_def coupling_def createResult_def)
      next
        case True
        obtain d sc where d: "detectCatchAll e cfg domain mx sb = (d, sc)" by force
        have sc: "results sc = results st" using results_detectCatchAll[OF d] sb by simp
        from assms w None h Inr cr c True d sc show ?thesis
          by (cases d) (auto simp: verifySMTPWithMX_def Let_def coupling_def createResult_def split: if_splits)
      qed
    qed
  qed
qed

lemma mx_loop_result:
  "mx_loop e cfg email domain all mxs lastErr st = (r, st1) \<Longrightarrow>
   results st1 = results st \<and> (\<forall>res err. r = Some (res, err) \<longrightarrow> coupling res)"
proof (induction mxs arbitrary: lastErr st)
  case Nil
  then show ?case by (auto simp: coupling_def createResult_def)
next
  case (Cons mx mxs)
  obtain v sa where v: "verifySMTPWithMX e cfg email domain mx st = (v, sa)" by force
  note vr = verifySMTPWithMX_result[OF v]
  show ?case
  proof (cases v)
    case None
    with Cons.prems v vr show ?thesis by auto
  next
    case (Some x)
    show ?thesis
    proof (cases x)
      case (Inl err)
      with Cons.prems v Some have "mx_loop e cfg email domain all mxs (Some err) sa = (r, st1)" by simp
      from Cons.IH[OF this] vr show ?thesis by simp
    next
      case (Inr res)
      show ?thesis
      proof (cases "Status res = StatusValid \<or> Status res = StatusInvalid")
        case True
        with Cons.prems v Some Inr vr show ?thesis by auto
      next
        case False
        with Cons.prems v Some Inr have "mx_loop e cfg email domain all mxs None sa = (r, st1)" by simp
        from Cons.IH[OF this] vr show ?thesis by simp
      qed
    qed
  qed
qed

lemma results_getMXRecords:
  "getMXRecords e cfg domain st = (r, st1) \<Longrightarrow> results st1 = results st"
  by (auto simp: getMXRecords_def cacheMXRecords_def Let_def split: option.splits list.splits sum.splits)

subsection \<open>The exchange sort\<close>

lemma swap_if_greater_props:
  assumes "i < length rs" "j < length rs" "i \<noteq> j"
  shows "length (swap_if_greater i j rs) = length rs"
    and "mset (swap_if_greater i j rs) = mset rs"
    and "\<And>k. k \<noteq> i \<Longrightarrow> k \<noteq> j \<Longrightarrow> swap_if_greater i j rs ! k = rs ! k"
    and "Priority (swap_if_greater i j rs ! i) \<le> Priority (swap_if_greater i j rs ! j)"
    and "Priority (swap_if_greater i j rs ! i) \<le> Priority (rs ! i)"
  using assms by (auto simp: swap_if_greater_def mset_swap nth_list_update)

lemma inner_fold:
  assumes "i < a" "a \<le> b" "b \<le> length rs"
  shows "length (fold (swap_if_greater i) [a..<b] rs) = length rs \<and>
         mset (fold (swap_if_greater i) [a..<b] rs) = mset rs \<and>
         (\<forall>k. k \<noteq> i \<and> (k < a \<or> b \<le> k) \<longrightarrow> fold (swap_if_greater i) [a..<b] rs ! k = rs ! k) \<and>
         (\<forall>k. a \<le> k \<and> k < b \<longrightarrow>
            Priority (fold (swap_if_greater i) [a..<b] rs ! i) \<le> Priority (fold (swap_if_greater i) [a..<b] rs ! k))"
  using assms(2,3)
proof (induction b rule: dec_induct)
  case base
  then show ?case by auto
next
  case (step b)
  let ?r1 = "fold (swap_if_greater i) [a..<b] rs"
  let ?r2 = "swap_if_greater i b ?r1"
  have f: "fold (swap_if_greater i) [a..<Suc b] rs = ?r2"
    using step.hyps by simp
  from step have IH: "length ?r1 = length rs" "mset ?r1 = mset rs"
    "\<And>k. k \<noteq> i \<Longrightarrow> k < a \<or> b \<le> k \<Longrightarrow> ?r1 ! k = rs ! k"
    "\<And>k. a \<le> k \<Longrightarrow> k < b \<Longrightarrow> Priority (?r1 ! i) \<le> Priority (?r1 ! k)"
    by auto
  have ib: "i < length ?r1" "b < length ?r1" "i \<noteq> b"
    using assms(1) step.hyps step.prems IH(1) by auto
  note sp = swap_if_greater_props[OF ib]
  have 1: "length ?r2 = length rs" using sp(1) IH(1) by simp
  have 2: "mset ?r2 = mset rs" using sp(2) IH(2) by simp
  have 3: "?r2 ! k = rs ! k" if "k \<noteq> i" "k < a \<or> Suc b \<le> k" for k
  proof -
    have "k \<noteq> b" using that step.hyps by auto
    then have "?r2 ! k = ?r1 ! k" using sp(3) that by simp
    also have "\<dots> = rs ! k" using IH(3) that by auto
    finally show ?thesis .
  qed
  have 4: "Priority (?r2 ! i) \<le> Priority (?r2 ! k)" if "a \<le> k" "k < Suc b" for k
  proof (cases "k = b")
    case True
    then show ?thesis using sp(4) by simp
  next
    case False
    then have kb: "k < b" using that by simp
    have "k \<noteq> i" using that assms(1) by simp
    then have "?r2 ! k = ?r1 ! k" using sp(3) False by simp
    moreover have "Priority (?r2 ! i) \<le> Priority (?r1 ! i)" by (rule sp(5))
    moreover have "Priority (?r1 ! i) \<le> Priority (?r1 ! k)" using IH(4) that(1) kb by simp
    ultimately show ?thesis by simp
  qed
  show ?case unfolding f using 1 2 3 4 by blast
qed

lemma sort_inner_props:
  assumes "Suc i < length rs"
  shows "length (sort_inner i rs) = length rs"
    and "mset (sort_inner i rs) = mset rs"
    and "take i (sort_inner i rs) = take i rs"
    and "mset (drop i (sort_inner i rs)) = mset (drop i rs)"
    and "\<And>k. i < k \<Longrightarrow> k < length rs \<Longrightarrow> Priority (sort_inner i rs ! i) \<le> Priority (sort_inner i rs ! k)"
proof -
  have p: "i < Suc i" "Suc i \<le> length rs" "length rs \<le> length rs" using assms by auto
  note f = inner_fold[OF p, folded sort_inner_def[unfolded Suc_eq_plus1[symmetric]]]
  show l: "length (sort_inner i rs) = length rs" using f by simp
  show m: "mset (sort_inner i rs) = mset rs" using f by simp
  show t: "take i (sort_inner i rs) = take i rs"
    by (rule nth_take_lemma) (use f l assms in auto)
  have "mset (take i (sort_inner i rs)) + mset (drop i (sort_inner i rs)) = mset (take i rs) + mset (drop i rs)"
    using m by (metis append_take_drop_id mset_append)
  then show "mset (drop i (sort_inner i rs)) = mset (drop i rs)" using t by simp
  show "\<And>k. i < k \<Longrightarrow> k < length rs \<Longrightarrow> Priority (sort_inner i rs ! i) \<le> Priority (sort_inner i rs ! k)"
    using f by auto
qed


lemma outer_fold:
  assumes "m < length rs"
  shows "length (fold sort_inner [0..<m] rs) = length rs \<and>
         mset (fold sort_inner [0..<m] rs) = mset rs \<and>
         sorted_upto m (fold sort_inner [0..<m] rs)"
  using assms
proof (induction m)
  case 0
  then show ?case by (simp add: sorted_upto_def)
next
  case (Suc m)
  let ?r1 = "fold sort_inner [0..<m] rs"
  let ?r2 = "sort_inner m ?r1"
  have f: "fold sort_inner [0..<Suc m] rs = ?r2" by simp
  from Suc have IH: "length ?r1 = length rs" "mset ?r1 = mset rs" "sorted_upto m ?r1" by auto
  have sm: "Suc m < length ?r1" using Suc.prems IH(1) by simp
  note sp = sort_inner_props[OF sm]
  have l2: "length ?r2 = length rs" using sp(1) IH(1) by simp
  have sd: "set (drop m ?r2) = set (drop m ?r1)" using sp(4) by (metis set_mset_mset)
  have tk: "take (Suc m) ?r2 = take m ?r1 @ [?r2 ! m]"
    using sp(3) l2 Suc.prems by (simp add: take_Suc_conv_app_nth)
  have mem: "?r2 ! m \<in> set (drop m ?r1)"
  proof -
    have "?r2 ! m \<in> set (drop m ?r2)"
      using l2 Suc.prems by (metis Cons_nth_drop_Suc Suc_lessD list.set_intros(1))
    then show ?thesis using sd by simp
  qed
  have a: "sorted (map Priority (take (Suc m) ?r2))"
    using IH(3) mem by (auto simp: tk sorted_append sorted_upto_def)
  have b: "Priority x \<le> Priority y" if "x \<in> set (take (Suc m) ?r2)" "y \<in> set (drop (Suc m) ?r2)" for x y
  proof -
    from that(2) obtain k where k: "y = ?r2 ! k" "Suc m \<le> k" "k < length ?r2"
      by (auto simp: in_set_conv_nth)
    have ym: "y \<in> set (drop m ?r1)"
      using that(2) sd by (metis Suc_n_not_le_n in_mono nat_le_linear set_drop_subset_set_drop)
    from that(1) consider "x \<in> set (take m ?r1)" | "x = ?r2 ! m" by (auto simp: tk)
    then show ?thesis
    proof cases
      case 1
      then show ?thesis using IH(3) ym by (simp add: sorted_upto_def)
    next
      case 2
      then show ?thesis using sp(5)[of k] k l2 IH(1) by simp
    qed
  qed
  show ?case unfolding f using l2 sp(2) IH(2) a b by (simp add: sorted_upto_def)
qed

lemma sortMXRecords_sorted_mset:
  "sorted (map Priority (sortMXRecords rs)) \<and> mset (sortMXRecords rs) = mset rs"
proof (cases rs)
  case Nil
  then show ?thesis by (simp add: sortMXRecords_def)
next
  case (Cons x xs)
  let ?r = "sortMXRecords rs"
  let ?n = "length rs"
  have n: "?n - 1 < ?n" using Cons by simp
  from outer_fold[OF n] have l: "length ?r = ?n" and m: "mset ?r = mset rs" and s: "sorted_upto (?n - 1) ?r"
    by (simp_all add: sortMXRecords_def)
  have "?r = take (?n - 1) ?r @ drop (?n - 1) ?r" by simp
  then have "map Priority ?r = map Priority (take (?n - 1) ?r) @ map Priority (drop (?n - 1) ?r)"
    by (metis map_append)
  moreover have "length (drop (?n - 1) ?r) = 1" using l Cons by simp
  then obtain z where z: "drop (?n - 1) ?r = [z]" by (metis One_nat_def length_0_conv length_Suc_conv)
  ultimately have "sorted (map Priority ?r)"
    using s by (auto simp: sorted_append sorted_upto_def z)
  then show ?thesis using m by simp
qed


lemma fold_fixed: "(\<And>x. x \<in> set xs \<Longrightarrow> f x a = a) \<Longrightarrow> fold f xs a = a"
  by (induction xs) auto

lemma sortMXRecords_of_sorted:
  assumes "sorted (map Priority rs)"
  shows "sortMXRecords rs = rs"
proof -
  have le: "Priority (rs ! i) \<le> Priority (rs ! j)" if "i < j" "j < length rs" for i j
    using sorted_nth_mono[OF assms, of i j] that by simp
  have sw: "swap_if_greater i j rs = rs" if "i < j" "j < length rs" for i j
    using le[OF that] by (auto simp: swap_if_greater_def)
  have inner: "sort_inner i rs = rs" for i
    unfolding sort_inner_def by (rule fold_fixed) (simp add: sw)
  show ?thesis
    unfolding sortMXRecords_def by (rule fold_fixed) (simp add: inner)
qed




lemma ran_upd_subset: "r \<in> ran (m(k \<mapsto> v)) \<Longrightarrow> r = v \<or> r \<in> ran m"
  by (auto simp: ran_def split: if_splits)

subsection \<open>A context that is done\<close>


lemma clock_tick [simp]: "clock (tick st) = Suc (clock st)"
  by (simp add: tick_def)







subsection \<open>The claims\<close>


text \<open>
  C1. The classifier follows the table of reply codes: 250 and 251 give
  valid/mailbox_exists/0.98; 550, 551 and 553 give invalid/mailbox_not_found/0.95;
  450, 451 and 452 give unknown/temporary_failure/0.30; 421 gives
  unknown/rate_limited/0.20; every code in 500..549, 552, or from 554 upwards gives
  invalid with reason smtp_error_<code> and confidence 0.70.
\<close>

theorem classifySMTPResponse_table:
  "(code = 250 \<or> code = 251 \<longrightarrow>
      classifySMTPResponse code response = (StatusValid, ''mailbox_exists'', 98 / 100)) \<and>
   (code = 550 \<or> code = 551 \<or> code = 553 \<longrightarrow>
      classifySMTPResponse code response = (StatusInvalid, ''mailbox_not_found'', 95 / 100)) \<and>
   (code = 450 \<or> code = 451 \<or> code = 452 \<longrightarrow>
      classifySMTPResponse code response = (StatusUnknown, ''temporary_failure'', 30 / 100)) \<and>
   (code = 421 \<longrightarrow>
      classifySMTPResponse code response = (StatusUnknown, ''rate_limited'', 20 / 100)) \<and>
   ((500 \<le> code \<and> code \<le> 549) \<or> code = 552 \<or> 554 \<le> code \<longrightarrow>
      classifySMTPResponse code response = (StatusInvalid, ''smtp_error_'' @ show_int code, 70 / 100))"
  by (simp add: classifySMTPResponse_def)

theorem classifySMTPResponse_table_witness:
  "classifySMTPResponse 250 ''Recipient OK'' = (StatusValid, ''mailbox_exists'', 98 / 100) \<and>
   classifySMTPResponse 551 ''x'' = (StatusInvalid, ''mailbox_not_found'', 95 / 100) \<and>
   classifySMTPResponse 452 ''x'' = (StatusUnknown, ''temporary_failure'', 30 / 100) \<and>
   classifySMTPResponse 421 ''x'' = (StatusUnknown, ''rate_limited'', 20 / 100) \<and>
   classifySMTPResponse 552 ''x'' = (StatusInvalid, ''smtp_error_552'', 70 / 100)"
proof -
  have "show_int 552 = ''552''"
    by code_simp
  then show ?thesis
    using classifySMTPResponse_table [of 250 "''Recipient OK''"]
      classifySMTPResponse_table [of 551 "''x''"]
      classifySMTPResponse_table [of 452 "''x''"]
      classifySMTPResponse_table [of 421 "''x''"]
      classifySMTPResponse_table [of 552 "''x''"]
    by simp
qed

text \<open>
  C5, as the code has it. Every address accepted by \<^verbatim>\<open>isValidEmailSyntax\<close> has exactly
  one \<open>@\<close> and at most 320 octets. A normalized input longer than 320 octets is
  rejected, and \<^verbatim>\<open>Verify\<close> then, unless the result cache already holds an entry for
  the fingerprint, returns invalid/syntax_error with confidence 1 and leaves the state
  as it was.
\<close>

theorem syntax_filter_bound:
  "(isValidEmailSyntax email \<longrightarrow> count_list email CHR ''@'' = 1 \<and> length email \<le> 320) \<and>
   (320 < length (ToLower (TrimSpace raw)) \<and>
    getCachedResult st (hashEmail e (ToLower (TrimSpace raw))) = None \<longrightarrow>
      \<not> isValidEmailSyntax (ToLower (TrimSpace raw)) \<and>
      (\<exists>r. Verify e cfg raw st = (Some r, st) \<and> Status r = StatusInvalid \<and>
           Reason r = ''syntax_error'' \<and> Confidence r = 1))"
proof -
  have a: "isValidEmailSyntax email \<longrightarrow> count_list email CHR ''@'' = 1 \<and> length email \<le> 320"
    using isValidEmailSyntax_one_at by (auto simp: isValidEmailSyntax_def)
  have b: "\<exists>r. Verify e cfg raw st = (Some r, st) \<and> Status r = StatusInvalid \<and>
           Reason r = ''syntax_error'' \<and> Confidence r = 1"
    if "320 < length (ToLower (TrimSpace raw))"
      "getCachedResult st (hashEmail e (ToLower (TrimSpace raw))) = None"
  proof -
    have "\<not> isValidEmailSyntax (ToLower (TrimSpace raw))"
      using that(1) by (simp add: isValidEmailSyntax_def)
    then show ?thesis using that(2)
      by (simp add: Verify_def createResult_def Let_def)
  qed
  show ?thesis using a b by (auto simp: isValidEmailSyntax_def)
qed

theorem syntax_filter_bound_witness:
  "isValidEmailSyntax ''a@b.co'' \<and> count_list ''a@b.co'' CHR ''@'' = 1 \<and>
   320 < length (ToLower (TrimSpace (replicate 321 CHR ''a''))) \<and>
   (\<exists>r. Verify example_env DefaultConfig (replicate 321 CHR ''a'') empty_state = (Some r, empty_state) \<and>
        Status r = StatusInvalid \<and> Reason r = ''syntax_error'' \<and> Confidence r = 1)"
proof -
  have l: "320 < length (ToLower (TrimSpace (replicate 321 CHR ''a'')))"
    by (simp add: TrimSpace_replicate_a)
  have m: "getCachedResult empty_state
             (hashEmail example_env (ToLower (TrimSpace (replicate 321 CHR ''a'')))) = None"
    by (simp add: getCachedResult_def empty_state_def)
  show ?thesis
    using syntax_filter_bound [of "''a@b.co''" "replicate 321 CHR ''a''" empty_state example_env DefaultConfig]
      ex_short_valid l m
    by simp
qed

text \<open>
  The bound of 254 octets does not hold: an address of 255 octets, 250 letters before
  the \<open>@\<close>, passes the syntax check.
\<close>

theorem syntax_filter_254_counterexample:
  "isValidEmailSyntax (replicate 250 CHR ''a'' @ ''@b.co'') \<and>
   length (replicate 250 CHR ''a'' @ ''@b.co'') = 255"
proof -
  have "emailRegex_cut (replicate 250 CHR ''a'' @ ''@b.co'') 250 252"
    by (simp add: emailRegex_cut_def nth_append list_all_iff class_defs)
  then have "emailRegex_MatchString (replicate 250 CHR ''a'' @ ''@b.co'')"
    by (rule MatchString_I[rotated 2]) simp_all
  then show ?thesis by (simp add: isValidEmailSyntax_def)
qed


text \<open>
  C7, as the code has it. When the address passes the syntax check and neither the
  result cache nor the MX cache has an entry, every failure of the MX lookup, be it
  an error of any kind (no such domain, a time-out, a server failure) or an empty
  answer, gives invalid/no_mx_records with confidence 0.95, and nothing is written
  to the result cache.
\<close>

theorem Verify_mx_failure_invalid:
  assumes "getCachedResult st (hashEmail e (ToLower (TrimSpace raw))) = None"
    and "isValidEmailSyntax (ToLower (TrimSpace raw))"
    and "getCachedMXRecords st (Split_at CHR ''@'' (ToLower (TrimSpace raw)) ! 1) = None \<or>
         getCachedMXRecords st (Split_at CHR ''@'' (ToLower (TrimSpace raw)) ! 1) = Some []"
    and "LookupMX e (Split_at CHR ''@'' (ToLower (TrimSpace raw)) ! 1) = Inl err \<or>
         LookupMX e (Split_at CHR ''@'' (ToLower (TrimSpace raw)) ! 1) = Inr []"
  shows "\<exists>r st1. Verify e cfg raw st = (Some r, st1) \<and> Status r = StatusInvalid \<and>
           Reason r = ''no_mx_records'' \<and> Confidence r = 95 / 100 \<and> results st1 = results st"
  using Verify_no_mx[OF assms, of cfg] by (auto simp: createResult_def)

theorem Verify_mx_failure_invalid_witness:
  "\<exists>r st1. Verify no_mx_env DefaultConfig ''user@example.com'' empty_state = (Some r, st1) \<and>
     Status r = StatusInvalid \<and> Reason r = ''no_mx_records'' \<and> Confidence r = 95 / 100 \<and>
     results st1 = results empty_state"
  by (rule Verify_mx_failure_invalid[where err = Canceled])
    (simp_all add: ex_user_norm ex_user_valid ex_user_domain getCachedResult_def
      getCachedMXRecords_def empty_state_def no_mx_env_def example_env_def)

text \<open>
  A DNS time-out is not told apart from the other failures: the verdict is invalid,
  not unknown.
\<close>

theorem Verify_dns_timeout_counterexample:
  "map_option Status (fst (Verify dns_timeout_env DefaultConfig ''user@example.com'' empty_state)) =
     Some StatusInvalid"
proof -
  have "\<exists>st1. Verify dns_timeout_env DefaultConfig ''user@example.com'' empty_state =
           (Some (createResult (ToLower (TrimSpace ''user@example.com''))
                    (hashEmail dns_timeout_env (ToLower (TrimSpace ''user@example.com'')))
                    (Split_at CHR ''@'' (ToLower (TrimSpace ''user@example.com'')) ! 1)
                    StatusInvalid ''no_mx_records'' (95 / 100) 0 [] [] []), st1) \<and>
           results st1 = results empty_state"
    by (rule Verify_no_mx[where err = "ErrorString ''lookup example.com: i/o timeout''"])
      (simp_all add: ex_user_norm ex_user_valid ex_user_domain getCachedResult_def
        getCachedMXRecords_def empty_state_def dns_timeout_env_def example_env_def)
  then show ?thesis by (auto simp: createResult_def)
qed

text \<open>
  C9. If every result held by the cache satisfies the coupling of status and
  catch-all flag (a valid result is not flagged, a catch-all result is), then so does
  the result \<^verbatim>\<open>Verify\<close> returns, and so does every result in the cache afterwards.
  The empty cache satisfies it, so it holds throughout for a cache written by
  \<^verbatim>\<open>Verify\<close> alone.
\<close>

theorem Verify_coupling:
  assumes inv: "cache_coupled st" and v: "Verify e cfg raw st = (Some r, st1)"
  shows "coupling r \<and> cache_coupled st1"
proof -
  let ?email = "ToLower (TrimSpace raw)"
  let ?hash = "hashEmail e ?email"
  show ?thesis
  proof (cases "getCachedResult st ?hash")
    case (Some cached)
    with v have "r = cached" "st1 = st" by (simp_all add: Verify_def Let_def)
    moreover have "cached \<in> ran (results st)" using Some by (auto simp: getCachedResult_def ran_def)
    ultimately show ?thesis using inv by (simp add: cache_coupled_def)
  next
    case miss: None
    show ?thesis
    proof (cases "isValidEmailSyntax ?email \<and> length (Split_at CHR ''@'' ?email) = 2")
      case False
      with v miss inv show ?thesis
        by (auto simp: Verify_def Let_def coupling_def createResult_def split: if_splits)
    next
      case True
      let ?domain = "Split_at CHR ''@'' ?email ! 1"
      obtain g sa where g: "getMXRecords e cfg ?domain st = (g, sa)" by force
      have sa: "results sa = results st" using results_getMXRecords[OF g] .
      have inv_sa: "cache_coupled sa" using inv sa by (simp add: cache_coupled_def)
      show ?thesis
      proof (cases g)
        case (Inl err)
        with v miss True g inv_sa show ?thesis
          by (auto simp: Verify_def Let_def coupling_def createResult_def)
      next
        case (Inr mxRecords)
        show ?thesis
        proof (cases "mxRecords = [] \<or> (case getDomainMetadata sa ?domain of
                                  None \<Rightarrow> False | Some domainMeta \<Rightarrow> meta_IsDisposable domainMeta)")
          case True
          with v miss \<open>isValidEmailSyntax ?email \<and> length (Split_at CHR ''@'' ?email) = 2\<close> g Inr inv_sa
          show ?thesis
            by (auto simp: Verify_def Let_def coupling_def createResult_def split: if_splits)
        next
          case False
          obtain p sb where p: "performSMTPVerification e cfg ?email ?domain mxRecords sa = (p, sb)" by force
          from mx_loop_result[OF p[unfolded performSMTPVerification_def]] sa
          have sb: "results sb = results st" and cp: "\<forall>res err. p = Some (res, err) \<longrightarrow> coupling res"
            by simp_all
          have inv_sb: "cache_coupled sb" using inv sb by (simp add: cache_coupled_def)
          show ?thesis
          proof (cases p)
            case None
            with v miss \<open>isValidEmailSyntax ?email \<and> length (Split_at CHR ''@'' ?email) = 2\<close> g Inr False p
            show ?thesis by (auto simp: Verify_def Let_def)
          next
            case (Some re)
            obtain res err where re: "re = (res, err)" by (cases re)
            have cres: "coupling res" using cp Some re by simp
            show ?thesis
            proof (cases err)
              case None
              with v miss \<open>isValidEmailSyntax ?email \<and> length (Split_at CHR ''@'' ?email) = 2\<close> g Inr False p Some re
              have "r = res" "st1 = cacheResult sb ?hash res" by (auto simp: Verify_def Let_def)
              moreover have "cache_coupled (cacheResult sb ?hash res)"
                using inv_sb cres by (auto simp: cache_coupled_def cacheResult_def ran_def)
              ultimately show ?thesis using cres by simp
            next
              case (Some er)
              with v miss \<open>isValidEmailSyntax ?email \<and> length (Split_at CHR ''@'' ?email) = 2\<close> g Inr False p \<open>p = Some re\<close> re inv_sb
              show ?thesis by (auto simp: Verify_def Let_def coupling_def createResult_def)
            qed
          qed
        qed
      qed
    qed
  qed
qed

theorem Verify_coupling_witness:
  "cache_coupled empty_state \<and>
   map_option Status (fst (Verify selective_env DefaultConfig ''user@example.com'' empty_state)) =
     Some StatusValid \<and>
   map_option IsCatchAll (fst (Verify selective_env DefaultConfig ''user@example.com'' empty_state)) =
     Some False \<and>
   cache_coupled (snd (Verify selective_env DefaultConfig ''user@example.com'' empty_state))"
proof -
  let ?V = "Verify selective_env DefaultConfig ''user@example.com'' empty_state"
  have inv: "cache_coupled empty_state"
    by (simp add: cache_coupled_def empty_state_def)
  have s: "map_option Status (fst ?V) = Some StatusValid"
    by code_simp
  then obtain r where r: "fst ?V = Some r" by auto
  then have v: "?V = (Some r, snd ?V)" by (metis prod.collapse)
  from Verify_coupling[OF inv v] s r show ?thesis
    by (auto simp: coupling_def inv)
qed

text \<open>
  C8, as the code has it. If every MX list in the cache is sorted by priority, the
  list \<^verbatim>\<open>getMXRecords\<close> returns is sorted ascending by priority, and the cache stays
  so. When the cache has no records for the domain, the list is a permutation of the
  resolver's answer with one trailing dot removed from each host name, the letter
  case of the name left as it is; and when the answer is already in ascending order
  of preference, the records come back in the answer's order, so that records of
  equal priority keep their order.
\<close>

theorem getMXRecords_sorted:
  assumes inv: "mx_cache_sorted st"
    and g: "getMXRecords e cfg domain st = (Inr records, st1)"
  shows "sorted (map Priority records) \<and> mx_cache_sorted st1 \<and>
     (getCachedMXRecords st domain = None \<or> getCachedMXRecords st domain = Some [] \<longrightarrow>
        (\<exists>mxs. LookupMX e domain = Inr mxs \<and>
           mset records = mset (map (\<lambda>(host, pref). \<lparr>Exchange = TrimSuffix host ''.'', Priority = pref\<rparr>) mxs) \<and>
           (sorted (map snd mxs) \<longrightarrow>
              records = map (\<lambda>(host, pref). \<lparr>Exchange = TrimSuffix host ''.'', Priority = pref\<rparr>) mxs)))"
proof (cases "getCachedMXRecords st domain = None \<or> getCachedMXRecords st domain = Some []")
  case False
  then obtain c cs where c: "getCachedMXRecords st domain = Some (c # cs)"
    by (cases "getCachedMXRecords st domain") (auto simp: neq_Nil_conv)
  with g have "records = c # cs" "st1 = st" by (simp_all add: getMXRecords_def)
  moreover have "c # cs \<in> ran (mx_cache st)" using c by (auto simp: getCachedMXRecords_def ran_def)
  ultimately show ?thesis using inv False by (auto simp: mx_cache_sorted_def)
next
  case True
  let ?mk = "\<lambda>(host, pref). \<lparr>Exchange = TrimSuffix host ''.'', Priority = pref\<rparr>"
  from True g obtain mxs where l: "LookupMX e domain = Inr mxs"
    and r: "records = sortMXRecords (map ?mk mxs)"
    and s1: "st1 = cacheMXRecords st domain records"
    by (cases "LookupMX e domain") (auto simp: getMXRecords_def Let_def)
  have a: "sorted (map Priority records)" and m: "mset records = mset (map ?mk mxs)"
    using sortMXRecords_sorted_mset[of "map ?mk mxs"] r by simp_all
  have b: "mx_cache_sorted st1"
    using inv a unfolding s1 mx_cache_sorted_def cacheMXRecords_def
    by (auto dest: ran_upd_subset)
  have pm: "map Priority (map ?mk mxs) = map snd mxs"
    by (induction mxs) auto
  have c: "records = map ?mk mxs" if "sorted (map snd mxs)"
    unfolding r by (rule sortMXRecords_of_sorted) (simp only: pm that)
  show ?thesis using a b l m c by blast
qed

theorem getMXRecords_sorted_witness:
  "mx_cache_sorted empty_state \<and>
   fst (getMXRecords unsorted_env DefaultConfig ''example.com'' empty_state) =
     Inr [\<lparr>Exchange = ''mx1.example.com'', Priority = 10\<rparr>, \<lparr>Exchange = ''mx2.example.com'', Priority = 20\<rparr>] \<and>
   sorted (map Priority [\<lparr>Exchange = ''mx1.example.com'', Priority = 10\<rparr>, \<lparr>Exchange = ''mx2.example.com'', Priority = 20 :: 16 word\<rparr>]) \<and>
   mx_cache_sorted (snd (getMXRecords unsorted_env DefaultConfig ''example.com'' empty_state))"
proof -
  let ?G = "getMXRecords unsorted_env DefaultConfig ''example.com'' empty_state"
  let ?rs = "[\<lparr>Exchange = ''mx1.example.com'', Priority = 10\<rparr>, \<lparr>Exchange = ''mx2.example.com'', Priority = 20 :: 16 word\<rparr>]"
  have inv: "mx_cache_sorted empty_state"
    by (simp add: mx_cache_sorted_def empty_state_def)
  have f: "fst ?G = Inr ?rs" by code_simp
  then have g: "?G = (Inr ?rs, snd ?G)" by (metis prod.collapse)
  from getMXRecords_sorted[OF inv g] inv f show ?thesis by simp
qed

text \<open>Host names are not lowercased: the upper-case letters of an answer are returned.\<close>

theorem getMXRecords_lowercase_counterexample:
  "fst (getMXRecords upper_env DefaultConfig ''example.com'' empty_state) =
     Inr [\<lparr>Exchange = ''MX1.Example.COM'', Priority = 10\<rparr>, \<lparr>Exchange = ''mx2.example.com'', Priority = 20\<rparr>] \<and>
   ToLower ''MX1.Example.COM'' \<noteq> ''MX1.Example.COM''"
  by code_simp

text \<open>
  C2. The detector compares the number of accepted probes with the integer quotient
  \<open>K div 2\<close>, not with the quotient rounded up. With one probe, rejected with
  550, the domain is judged a catch-all; with three probes of which one is accepted,
  it is judged a catch-all too.
\<close>

theorem detectCatchAll_floor_threshold:
  "fst (detectCatchAll reject_env (DefaultConfig\<lparr>CatchAllProbeCount := 1\<rparr>) ''example.com''
          \<lparr>Exchange = ''mx.example.com'', Priority = 10\<rparr> empty_state) = Some True \<and>
   fst (detectCatchAll first_probe_env (DefaultConfig\<lparr>CatchAllProbeCount := 3\<rparr>) ''example.com''
          \<lparr>Exchange = ''mx.example.com'', Priority = 10\<rparr> empty_state) = Some True"
  by code_simp

text \<open>
  C3. With the domain recorded as a catch-all, in the domain metadata and in the
  catch-all cache, \<^verbatim>\<open>Verify\<close> still opens an SMTP session for the submitted address,
  and the verdict it returns is unknown/all_mx_failed, since the MX loop keeps only
  results whose status is valid or invalid.
\<close>

theorem Verify_known_catch_all_probes:
  "contacted (snd (Verify example_env DefaultConfig ''user@example.com'' known_catchall_state)) =
     [(''user@example.com'', ''mx.example.com'')] \<and>
   map_option Status (fst (Verify example_env DefaultConfig ''user@example.com'' known_catchall_state)) =
     Some StatusUnknown \<and>
   map_option Reason (fst (Verify example_env DefaultConfig ''user@example.com'' known_catchall_state)) =
     Some ''all_mx_failed''"
  by code_simp




text \<open>
  C6. The delay after the attempt numbered \<open>attempt\<close> (from 0) is base times
  \<open>attempt + 1\<close> times factor: 4 s, 8 s, 12 s with the defaults, and a host that
  refuses connections is waited for 4 s and then 8 s. A temporary failure at RCPT is
  returned without an error, so the host is contacted once and not retried.
\<close>

theorem backoff_linear:
  "backoff DefaultConfig 0 = 4 * Second \<and> backoff DefaultConfig 1 = 8 * Second \<and>
   backoff DefaultConfig 2 = 12 * Second \<and>
   waited (snd (Verify refused_env DefaultConfig ''user@example.com'' empty_state)) =
     [4 * Second, 8 * Second] \<and>
   contacted (snd (Verify greylist_env DefaultConfig ''user@example.com'' empty_state)) =
     [(''user@example.com'', ''mx.example.com'')]"
  by code_simp

end
